theory Spec2Isabelle
  imports Main "HOL-Library.Multiset"
begin

section \<open>Go values and run-time panics\<close>

text \<open>
  The program is \<open>cmd/euclidgen\<close>: \<open>bjorklund\<close> builds a hit/rest pattern and the body of
  \<open>main\<close> (the same lines as \<open>generateRhythm\<close> in \<open>examples.go\<close>) mixes one drum burst per
  hit into a sample buffer. A slice is a list. The run-time panics the statements can
  raise are values of \<open>panic\<close>, and a function that can panic returns \<open>panic + 'a\<close>
  with \<open>Inl\<close> for the panic.
\<close>

datatype panic = DivideByZero | MakeSliceLenOutOfRange | IndexOutOfRange

text \<open>
  Go's \<open>int\<close> has 64 bits on the platforms the program is built for, and its
  arithmetic wraps around silently. A value of the program is an \<open>int\<close> here, and
  \<open>wrap64\<close> brings a result back into \<open>[-2^63, 2^63)\<close> in two's complement.
\<close>

definition wrap64 :: "int \<Rightarrow> int" where
  "wrap64 x = (x + 2 ^ 63) mod 2 ^ 64 - 2 ^ 63"

text \<open>Go's \<open>*\<close> on \<open>int\<close>.\<close>

definition go_mul :: "int \<Rightarrow> int \<Rightarrow> int" where
  "go_mul a b = wrap64 (a * b)"

text \<open>
  Go's \<open>/\<close> on integers truncates towards zero; the divisor is checked by the caller.
  The program divides by 1000 and divides 60000, so no quotient leaves the range.
\<close>

definition go_div :: "int \<Rightarrow> int \<Rightarrow> int" where
  "go_div a b = (if (a < 0) = (b < 0) then \<bar>a\<bar> div \<bar>b\<bar> else - (\<bar>a\<bar> div \<bar>b\<bar>))"

text \<open>\<open>make([]int, n)\<close>: a zeroed slice, or a panic when \<open>n\<close> is negative.\<close>

definition make_ints :: "int \<Rightarrow> panic + int list" where
  "make_ints n = (if n < 0 then Inl MakeSliceLenOutOfRange else Inr (replicate (nat n) 0))"

section \<open>bjorklund\<close>

text \<open>
  The initialisation loop of \<open>bjorklund\<close>: group \<open>i\<close> is \<open>[1]\<close> when \<open>i < pulses\<close>
  and \<open>[0]\<close> otherwise, for \<open>i\<close> from 0 below \<open>steps\<close>.
\<close>

definition init_groups :: "int \<Rightarrow> int \<Rightarrow> int list list" where
  "init_groups steps pulses =
     map (\<lambda>i. if int i < pulses then [1] else [0]) [0..<nat steps]"

text \<open>
  The inner \<open>for i := 0; i < len(groups)-1; i++\<close> loop, with its state
  \<open>(groups, i, cnt)\<close>, where \<open>cnt\<close> is the source's \<open>count\<close>. The bound is read again
  at every iteration, as in Go. The guard \<open>i < len(groups)-1\<close> keeps \<open>groups[i]\<close> and \<open>groups[len(groups)-1]\<close> in range,
  and \<open>&&\<close> reads element 0 of a group only after its length was found to be 1.
\<close>

function pairing_pass :: "int list list \<Rightarrow> nat \<Rightarrow> nat \<Rightarrow> int list list \<times> nat" where
  "pairing_pass groups i cnt =
     (if int i < int (length groups) - 1 then
        (if length (groups ! i) = 1 \<and> length (groups ! (length groups - 1)) = 1
            \<and> groups ! i ! 0 \<noteq> groups ! (length groups - 1) ! 0
         then pairing_pass
                (take (length groups - 1)
                   (groups[i := groups ! i @ [groups ! (length groups - 1) ! 0]]))
                (Suc i) (Suc cnt)
         else pairing_pass groups (Suc i) cnt)
      else (groups, cnt))"
  by pat_completeness auto
termination
  by (relation "measure (\<lambda>(groups, i, cnt). length groups - i)") auto

declare pairing_pass.simps [simp del]

text \<open>
  The outer \<open>for { ... if count == 0 { break } }\<close> loop. Nothing in its text bounds the
  number of rounds, so it is a partial function: \<open>None\<close> stands for a loop that never
  leaves.
\<close>

partial_function (option) merge_loop :: "int list list \<Rightarrow> int list list option" where
  "merge_loop groups =
     (case pairing_pass groups 0 0 of
        (groups', cnt) \<Rightarrow> if cnt = 0 then Some groups' else merge_loop groups')"

declare merge_loop.simps [code]

text \<open>
  \<open>bjorklund(steps, pulses)\<close>. The outer \<open>option\<close> is \<open>None\<close> when the merge loop does
  not return; inside, \<open>Inl\<close> is a panic and \<open>Inr\<close> the returned pattern.
\<close>

definition bjorklund :: "int \<Rightarrow> int \<Rightarrow> (panic + int list) option" where
  "bjorklund steps pulses =
     (if pulses = 0 then Some (make_ints steps)
      else if pulses = steps then
        Some (case make_ints steps of
                Inl e \<Rightarrow> Inl e
              | Inr out \<Rightarrow> Inr (map (\<lambda>_. 1) out))
      else if steps < 0 then Some (Inl MakeSliceLenOutOfRange)
      else (case merge_loop (init_groups steps pulses) of
              None \<Rightarrow> None
            | Some groups \<Rightarrow> Some (Inr (concat groups))))"

section \<open>Mixing the bursts\<close>

text \<open>An index expression \<open>xs[k]\<close> panics unless \<open>0 \<le> k < len(xs)\<close>.\<close>

definition in_range :: "int \<Rightarrow> 'a list \<Rightarrow> bool" where
  "in_range k xs = (0 \<le> k \<and> k < int (length xs))"

text \<open>
  The loop \<open>for j := 0; j < len(drum) && start+j < len(out); j++ { out[start+j] += drum[j] }\<close>
  with its state \<open>(j, out)\<close>. The statement in its body indexes \<open>out\<close> and \<open>drum\<close>; both
  index checks of the run time are written out. The sum \<open>start+j\<close> is not wrapped:
  \<open>start\<close> is a quotient by 1000 of a 64-bit value and \<open>j\<close> is below the length of a
  slice, so the sum stays within 64 bits.
\<close>

function mix_burst :: "int list \<Rightarrow> int \<Rightarrow> nat \<Rightarrow> int list \<Rightarrow> panic + int list" where
  "mix_burst drum start j out =
     (if j < length drum \<and> start + int j < int (length out) then
        (if in_range (start + int j) out \<and> in_range (int j) drum
         then mix_burst drum start (Suc j)
                (out[nat (start + int j) := out ! nat (start + int j) + drum ! j])
         else Inl IndexOutOfRange)
      else Inr out)"
  by pat_completeness auto
termination
  by (relation "measure (\<lambda>(drum, start, j, out). length drum - j)") auto

declare mix_burst.simps [simp del]

text \<open>
  \<open>start := i * sampleRate * beatMs / 1000\<close>: Go multiplies from the left, each
  product wrapping around, and divides last, so the product of all three is formed
  before the one truncating division.
\<close>

definition hit_start :: "nat \<Rightarrow> int \<Rightarrow> int \<Rightarrow> int" where
  "hit_start i sampleRate beatMs = go_div (go_mul (go_mul (int i) sampleRate) beatMs) 1000"

text \<open>
  The loop \<open>for i, v := range pattern\<close>, with the index \<open>i\<close> of the element at the head
  of the remaining pattern: a step with \<open>v == 1\<close> computes \<open>start\<close> and runs the
  inner loop from \<open>j = 0\<close>.
\<close>

fun place_hits :: "int \<Rightarrow> int \<Rightarrow> int list \<Rightarrow> int list \<Rightarrow> nat \<Rightarrow> int list \<Rightarrow> panic + int list" where
  "place_hits sampleRate beatMs drum [] i out = Inr out"
| "place_hits sampleRate beatMs drum (v # rest) i out =
     (if v = 1 then
        (case mix_burst drum (hit_start i sampleRate beatMs) 0 out of
           Inl e \<Rightarrow> Inl e
         | Inr out' \<Rightarrow> place_hits sampleRate beatMs drum rest (Suc i) out')
      else place_hits sampleRate beatMs drum rest (Suc i) out)"

text \<open>\<open>totalSamples := sampleRate * steps * beatMs / 1000\<close>, in the same way.\<close>

definition totalSamples :: "int \<Rightarrow> int \<Rightarrow> int \<Rightarrow> int" where
  "totalSamples sampleRate steps beatMs = go_div (go_mul (go_mul sampleRate steps) beatMs) 1000"

text \<open>
  The rendering lines of \<open>main\<close> and of \<open>generateRhythm\<close>, as a function of the values
  they read: \<open>beatMs := 60000 / bpm\<close>, \<open>totalSamples\<close>,
  \<open>out := make([]int, totalSamples)\<close>, then the loop over the pattern. The burst
  \<open>drum\<close> comes from \<open>synthDrum\<close>, which computes in floating point; it is a parameter
  here. The pattern is a parameter as well; the program passes the pattern that
  \<open>bjorklund(steps, pulses)\<close> returned.
\<close>

definition render :: "int list \<Rightarrow> int list \<Rightarrow> int \<Rightarrow> int \<Rightarrow> int \<Rightarrow> panic + int list" where
  "render pattern drum sampleRate bpm steps =
     (if bpm = 0 then Inl DivideByZero
      else
        (let beatMs = go_div 60000 bpm in
         (case make_ints (totalSamples sampleRate steps beatMs) of
            Inl e \<Rightarrow> Inl e
          | Inr out \<Rightarrow> place_hits sampleRate beatMs drum pattern 0 out)))"

section \<open>One pairing round\<close>

text \<open>
  A round that starts with the counter at \<open>cnt\<close> and ends with it at \<open>cnt'\<close> has dropped
  exactly \<open>cnt' - cnt\<close> groups; the counter never goes down.
\<close>

lemma pairing_pass_count:
  "pairing_pass groups i cnt = (groups', cnt')
   \<Longrightarrow> length groups' + cnt' = length groups + cnt \<and> cnt \<le> cnt'"
proof (induction groups i cnt rule: pairing_pass.induct)
  case (1 groups i cnt)
  show ?case
  proof (cases "int i < int (length groups) - 1")
    case False
    with "1.prems" show ?thesis by (simp add: pairing_pass.simps)
  next
    case True
    show ?thesis
    proof (cases "length (groups ! i) = 1 \<and> length (groups ! (length groups - 1)) = 1
            \<and> groups ! i ! 0 \<noteq> groups ! (length groups - 1) ! 0")
      case merge: True
      let ?gs = "take (length groups - 1)
                   (groups[i := groups ! i @ [groups ! (length groups - 1) ! 0]])"
      from True merge "1.prems" have "pairing_pass ?gs (Suc i) (Suc cnt) = (groups', cnt')"
        by (subst (asm) pairing_pass.simps) simp
      from "1.IH"(1)[OF True merge this] True show ?thesis by auto
    next
      case keep: False
      from True keep "1.prems" have "pairing_pass groups (Suc i) cnt = (groups', cnt')"
        by (subst (asm) pairing_pass.simps) auto
      from "1.IH"(2)[OF True keep this] show ?thesis .
    qed
  qed
qed

text \<open>A merge needs two groups at least, so a round never empties the list.\<close>

lemma pairing_pass_nonempty:
  "groups \<noteq> [] \<Longrightarrow> pairing_pass groups i cnt = (groups', cnt') \<Longrightarrow> groups' \<noteq> []"
proof (induction groups i cnt rule: pairing_pass.induct)
  case (1 groups i cnt)
  show ?case
  proof (cases "int i < int (length groups) - 1")
    case False
    with "1.prems" show ?thesis by (simp add: pairing_pass.simps)
  next
    case True
    show ?thesis
    proof (cases "length (groups ! i) = 1 \<and> length (groups ! (length groups - 1)) = 1
            \<and> groups ! i ! 0 \<noteq> groups ! (length groups - 1) ! 0")
      case merge: True
      let ?gs = "take (length groups - 1)
                   (groups[i := groups ! i @ [groups ! (length groups - 1) ! 0]])"
      from True merge "1.prems" have run: "pairing_pass ?gs (Suc i) (Suc cnt) = (groups', cnt')"
        by (subst (asm) pairing_pass.simps) simp
      from True have "?gs \<noteq> []" by auto
      from "1.IH"(1)[OF True merge this run] show ?thesis .
    next
      case keep: False
      from True keep "1.prems" have "pairing_pass groups (Suc i) cnt = (groups', cnt')"
        by (subst (asm) pairing_pass.simps) auto
      from "1.IH"(2)[OF True keep "1.prems"(1) this] show ?thesis .
    qed
  qed
qed

text \<open>A round whose counter did not move left the groups as they were.\<close>

lemma pairing_pass_unchanged:
  "pairing_pass groups i cnt = (groups', cnt) \<Longrightarrow> groups' = groups"
proof (induction groups i cnt rule: pairing_pass.induct)
  case (1 groups i cnt)
  show ?case
  proof (cases "int i < int (length groups) - 1")
    case False
    with "1.prems" show ?thesis by (simp add: pairing_pass.simps)
  next
    case True
    show ?thesis
    proof (cases "length (groups ! i) = 1 \<and> length (groups ! (length groups - 1)) = 1
            \<and> groups ! i ! 0 \<noteq> groups ! (length groups - 1) ! 0")
      case merge: True
      let ?gs = "take (length groups - 1)
                   (groups[i := groups ! i @ [groups ! (length groups - 1) ! 0]])"
      from True merge "1.prems" have run: "pairing_pass ?gs (Suc i) (Suc cnt) = (groups', cnt)"
        by (subst (asm) pairing_pass.simps) simp
      from pairing_pass_count[OF run] True have False by simp
      then show ?thesis ..
    next
      case keep: False
      from True keep "1.prems" have "pairing_pass groups (Suc i) cnt = (groups', cnt)"
        by (subst (asm) pairing_pass.simps) auto
      from "1.IH"(2)[OF True keep this] show ?thesis .
    qed
  qed
qed

text \<open>Groups that all hold the same single symbol are never merged.\<close>

lemma pairing_pass_same:
  "\<forall>g \<in> set groups. g = [v] \<Longrightarrow> pairing_pass groups i cnt = (groups, cnt)"
proof (induction groups i cnt rule: pairing_pass.induct)
  case (1 groups i cnt)
  show ?case
  proof (cases "int i < int (length groups) - 1")
    case False
    then show ?thesis by (simp add: pairing_pass.simps)
  next
    case True
    then have "groups ! i = [v]" and "groups ! (length groups - 1) = [v]"
      using "1.prems" by auto
    then have keep: "\<not> (length (groups ! i) = 1 \<and> length (groups ! (length groups - 1)) = 1
            \<and> groups ! i ! 0 \<noteq> groups ! (length groups - 1) ! 0)" by simp
    from "1.IH"(2)[OF True keep "1.prems"] True keep show ?thesis
      by (subst pairing_pass.simps) auto
  qed
qed

section \<open>What the merge loop keeps\<close>

lemma mset_concat_update:
  "i < length xs \<Longrightarrow> mset (concat (xs[i := xs ! i @ [x]])) = add_mset x (mset (concat xs))"
  by (induction xs arbitrary: i) (auto simp: nth_Cons split: nat.splits)

text \<open>
  One merge moves the single symbol of the last group to the end of group \<open>i\<close>: the
  symbols of all groups together stay the same multiset.
\<close>

lemma mset_concat_merge:
  assumes "int i < int (length groups) - 1" and "length (groups ! (length groups - 1)) = 1"
  shows "mset (concat (take (length groups - 1)
            (groups[i := groups ! i @ [groups ! (length groups - 1) ! 0]])))
         = mset (concat groups)"
proof -
  let ?n = "length groups - 1"
  let ?x = "groups ! ?n ! 0"
  from assms(1) have ne: "groups \<noteq> []" and i: "i < ?n" by auto
  from assms(2) have last: "groups ! ?n = [?x]"
    by (cases "groups ! ?n") auto
  from ne have split: "groups = take ?n groups @ [groups ! ?n]"
    by (metis append_butlast_last_id butlast_conv_take last_conv_nth)
  have eq: "take ?n (groups[i := groups ! i @ [?x]])
              = (take ?n groups)[i := take ?n groups ! i @ [?x]]"
    using i by (simp add: take_update_swap)
  have "mset (concat ((take ?n groups)[i := take ?n groups ! i @ [?x]]))
      = add_mset ?x (mset (concat (take ?n groups)))"
    by (rule mset_concat_update) (use i in simp)
  then have "mset (concat (take ?n (groups[i := groups ! i @ [?x]])))
      = add_mset ?x (mset (concat (take ?n groups)))"
    by (simp only: eq)
  also have "\<dots> = mset (concat (take ?n groups @ [groups ! ?n]))"
    using last by simp
  also have "\<dots> = mset (concat groups)" using split by simp
  finally show ?thesis .
qed

lemma pairing_pass_mset:
  "pairing_pass groups i cnt = (groups', cnt') \<Longrightarrow> mset (concat groups') = mset (concat groups)"
proof (induction groups i cnt rule: pairing_pass.induct)
  case (1 groups i cnt)
  show ?case
  proof (cases "int i < int (length groups) - 1")
    case False
    with "1.prems" show ?thesis by (simp add: pairing_pass.simps)
  next
    case True
    show ?thesis
    proof (cases "length (groups ! i) = 1 \<and> length (groups ! (length groups - 1)) = 1
            \<and> groups ! i ! 0 \<noteq> groups ! (length groups - 1) ! 0")
      case merge: True
      let ?gs = "take (length groups - 1)
                   (groups[i := groups ! i @ [groups ! (length groups - 1) ! 0]])"
      from True merge "1.prems" have run: "pairing_pass ?gs (Suc i) (Suc cnt) = (groups', cnt')"
        by (subst (asm) pairing_pass.simps) simp
      from "1.IH"(1)[OF True merge run] mset_concat_merge[OF True] merge show ?thesis by simp
    next
      case keep: False
      from True keep "1.prems" have "pairing_pass groups (Suc i) cnt = (groups', cnt')"
        by (subst (asm) pairing_pass.simps) auto
      from "1.IH"(2)[OF True keep this] show ?thesis .
    qed
  qed
qed

text \<open>
  The outer loop returns for every list of groups: a round that merged something left
  fewer groups, so the induction is on the number of groups.
\<close>

lemma merge_loop_returns: "\<exists>groups'. merge_loop groups = Some groups'"
proof (induction groups rule: measure_induct_rule[where f = length])
  case (less groups)
  obtain gs cnt where run: "pairing_pass groups 0 0 = (gs, cnt)"
    by (cases "pairing_pass groups 0 0")
  show ?case
  proof (cases "cnt = 0")
    case True
    with run show ?thesis by (subst merge_loop.simps) simp
  next
    case False
    with pairing_pass_count[OF run] have "length gs < length groups" by simp
    from less.IH[OF this] obtain groups' where "merge_loop gs = Some groups'" ..
    with run False show ?thesis by (subst merge_loop.simps) simp
  qed
qed

lemma merge_loop_mset:
  "merge_loop groups = Some groups' \<Longrightarrow> mset (concat groups') = mset (concat groups)"
proof (induction groups rule: measure_induct_rule[where f = length])
  case (less groups)
  obtain gs cnt where run: "pairing_pass groups 0 0 = (gs, cnt)"
    by (cases "pairing_pass groups 0 0")
  show ?case
  proof (cases "cnt = 0")
    case True
    with run less.prems have "groups' = gs" by (subst (asm) merge_loop.simps) simp
    with pairing_pass_mset[OF run] show ?thesis by simp
  next
    case False
    with pairing_pass_count[OF run] have shorter: "length gs < length groups" by simp
    from run False less.prems have "merge_loop gs = Some groups'"
      by (subst (asm) merge_loop.simps) simp
    from less.IH[OF shorter this] pairing_pass_mset[OF run] show ?thesis by simp
  qed
qed

section \<open>The initial groups\<close>

lemma concat_init_groups:
  "concat (init_groups steps pulses)
     = map (\<lambda>i. if int i < pulses then 1 else 0) [0..<nat steps]"
proof -
  have "concat (map (\<lambda>i. [if int i < pulses then 1 else (0::int)]) xs)
          = map (\<lambda>i. if int i < pulses then 1 else 0) xs" for xs :: "nat list"
    by (induction xs) simp_all
  moreover have "(\<lambda>i. if int i < pulses then [1] else [0::int])
                   = (\<lambda>i. [if int i < pulses then 1 else 0])"
    by auto
  ultimately show ?thesis by (simp add: init_groups_def)
qed

lemma hits_init_groups:
  assumes "0 \<le> pulses" "pulses \<le> steps"
  shows "length (filter (\<lambda>v. v = 1) (concat (init_groups steps pulses))) = nat pulses"
proof -
  have "filter (\<lambda>v. v = (1::int)) (map (\<lambda>i. if int i < pulses then 1 else 0) [0..<n])
          = replicate (min n (nat pulses)) 1" for n
    by (induction n) (auto simp: min_def replicate_append_same)
  moreover from assms have "min (nat steps) (nat pulses) = nat pulses" by simp
  ultimately show ?thesis by (simp add: concat_init_groups)
qed

text \<open>
  For \<open>steps \<ge> 0\<close> the function returns a pattern, and the pattern is a rearrangement
  of what the branch taken started from.
\<close>

lemma bjorklund_returns:
  assumes "0 \<le> steps"
  shows "\<exists>pattern. bjorklund steps pulses = Some (Inr pattern)
           \<and> mset pattern = mset (if pulses = 0 then replicate (nat steps) 0
                                  else if pulses = steps then replicate (nat steps) 1
                                  else concat (init_groups steps pulses))"
proof -
  consider "pulses = 0" | "pulses \<noteq> 0" "pulses = steps" | "pulses \<noteq> 0" "pulses \<noteq> steps"
    by blast
  then show ?thesis
  proof cases
    case 1
    with assms show ?thesis by (simp add: bjorklund_def make_ints_def)
  next
    case 2
    with assms show ?thesis by (simp add: bjorklund_def make_ints_def map_replicate_const)
  next
    case 3
    obtain groups where run: "merge_loop (init_groups steps pulses) = Some groups"
      using merge_loop_returns by blast
    from merge_loop_mset[OF run] 3 assms run show ?thesis
      by (simp add: bjorklund_def)
  qed
qed

section \<open>Properties of bjorklund\<close>

text \<open>
  C7. For 16 steps and 6 pulses \<open>bjorklund\<close> returns
  hit, rest, hit, rest, hit, rest, hit, rest, hit, rest, hit, rest, rest, rest, rest, rest
  (printed \<open>X.X.X.X.X.X.....\<close>).
\<close>

theorem bjorklund_16_6:
  "bjorklund 16 6 = Some (Inr [1, 0, 1, 0, 1, 0, 1, 0, 1, 0, 1, 0, 0, 0, 0, 0])"
  by code_simp

text \<open>
  C1. For 8 steps and 3 pulses the doc comment of \<open>bjorklund\<close> promises
  hit, rest, rest, hit, rest, rest, hit, rest (\<open>X..X..X.\<close>). The function returns
  hit, rest, hit, rest, hit, rest, rest, rest (\<open>X.X.X...\<close>) instead: the first round
  pairs each hit with a rest, after it every hit group has two elements, and a later
  round merges groups of one element only.
\<close>

theorem bjorklund_8_3:
  "bjorklund 8 3 = Some (Inr [1, 0, 1, 0, 1, 0, 0, 0])
   \<and> bjorklund 8 3 \<noteq> Some (Inr [1, 0, 0, 1, 0, 0, 1, 0])"
  by code_simp

text \<open>
  C3. For \<open>steps \<ge> 1\<close> and \<open>0 \<le> pulses \<le> steps\<close>, \<open>bjorklund\<close> returns a pattern of
  exactly \<open>steps\<close> entries, of which exactly \<open>pulses\<close> are hits (the value 1).
\<close>

theorem bjorklund_pulse_count:
  assumes "1 \<le> steps" "0 \<le> pulses" "pulses \<le> steps"
  shows "\<exists>pattern. bjorklund steps pulses = Some (Inr pattern)
           \<and> int (length pattern) = steps
           \<and> int (length (filter (\<lambda>v. v = 1) pattern)) = pulses"
proof -
  let ?ref = "if pulses = 0 then replicate (nat steps) 0
              else if pulses = steps then replicate (nat steps) 1
              else concat (init_groups steps pulses)"
  from assms have "0 \<le> steps" by simp
  from bjorklund_returns[OF this, of pulses] obtain pattern
    where ret: "bjorklund steps pulses = Some (Inr pattern)" and ms: "mset pattern = mset ?ref"
    by blast
  have len_ref: "length ?ref = nat steps"
    by (simp add: concat_init_groups)
  have hits_ref: "length (filter (\<lambda>v. v = 1) ?ref) = nat pulses"
    using assms by (simp add: hits_init_groups)
  from ms have "length pattern = length ?ref" by (rule mset_eq_length)
  with len_ref assms have len: "int (length pattern) = steps" by simp
  from ms have "mset (filter (\<lambda>v. v = 1) pattern) = mset (filter (\<lambda>v. v = 1) ?ref)"
    by (simp only: mset_filter)
  then have "length (filter (\<lambda>v. v = 1) pattern) = length (filter (\<lambda>v. v = 1) ?ref)"
    by (rule mset_eq_length)
  with hits_ref assms have "int (length (filter (\<lambda>v. v = 1) pattern)) = pulses" by simp
  with ret len show ?thesis by blast
qed

text \<open>The statement of C3 at 8 steps and 3 pulses.\<close>

theorem bjorklund_pulse_count_witness:
  "(1::int) \<le> 8 \<and> (0::int) \<le> 3 \<and> (3::int) \<le> 8
   \<and> (\<exists>pattern. bjorklund 8 3 = Some (Inr pattern)
         \<and> int (length pattern) = 8
         \<and> int (length (filter (\<lambda>v. v = 1) pattern)) = 3)"
  using bjorklund_pulse_count[of 8 3] by simp

text \<open>
  C8. For \<open>steps \<ge> 1\<close> and \<open>pulses > steps\<close>, \<open>bjorklund\<close> does not fail: every initial
  group is the hit group \<open>[1]\<close>, the first round merges nothing, and the pattern
  returned is \<open>steps\<close> hits.
\<close>

theorem bjorklund_too_many_pulses:
  assumes "1 \<le> steps" "steps < pulses"
  shows "bjorklund steps pulses = Some (Inr (replicate (nat steps) 1))
         \<and> init_groups steps pulses = replicate (nat steps) [1]
         \<and> pairing_pass (init_groups steps pulses) 0 0 = (init_groups steps pulses, 0)"
proof -
  have "map (\<lambda>i. if int i < pulses then [1] else [0::int]) [0..<nat steps]
          = map (\<lambda>i. [1]) [0..<nat steps]"
    using assms by (intro map_cong) auto
  then have init: "init_groups steps pulses = replicate (nat steps) [1]"
    by (simp add: init_groups_def map_replicate_trivial)
  then have pass: "pairing_pass (init_groups steps pulses) 0 0 = (init_groups steps pulses, 0)"
    by (intro pairing_pass_same[where v = 1]) simp
  then have "merge_loop (init_groups steps pulses) = Some (init_groups steps pulses)"
    by (subst merge_loop.simps) simp
  with assms init have "bjorklund steps pulses = Some (Inr (replicate (nat steps) 1))"
    by (simp add: bjorklund_def)
  with init pass show ?thesis by simp
qed

text \<open>The statement of C8 at 2 steps and 3 pulses.\<close>

theorem bjorklund_too_many_pulses_witness:
  "(1::int) \<le> 2 \<and> (2::int) < 3
   \<and> bjorklund 2 3 = Some (Inr (replicate (nat 2) 1))
   \<and> init_groups 2 3 = replicate (nat 2) [1]
   \<and> pairing_pass (init_groups 2 3) 0 0 = (init_groups 2 3, 0)"
proof -
  have h: "(1::int) \<le> 2" "(2::int) < 3" by simp_all
  from bjorklund_too_many_pulses[OF h] h show ?thesis by blast
qed

text \<open>
  C2, as the code has it. \<open>bjorklund\<close> checks nothing and has no \<open>InvalidSpec\<close> result.
  A call with \<open>steps < 0\<close> fails, with the run-time panic of \<open>make\<close> for a negative
  length, and returns no pattern. Every call with \<open>steps \<ge> 0\<close> returns a pattern of
  \<open>steps\<close> entries, also when \<open>steps = 0\<close> and when \<open>pulses > steps\<close>.
\<close>

theorem bjorklund_fails_only_below_zero:
  "(steps < 0 \<longrightarrow> bjorklund steps pulses = Some (Inl MakeSliceLenOutOfRange))
   \<and> (0 \<le> steps \<longrightarrow> (\<exists>pattern. bjorklund steps pulses = Some (Inr pattern)
                                  \<and> int (length pattern) = steps))"
proof (intro conjI impI)
  assume "steps < 0"
  then show "bjorklund steps pulses = Some (Inl MakeSliceLenOutOfRange)"
    by (simp add: bjorklund_def make_ints_def)
next
  assume nonneg: "0 \<le> steps"
  from bjorklund_returns[OF this, of pulses] obtain pattern
    where ret: "bjorklund steps pulses = Some (Inr pattern)"
      and ms: "mset pattern = mset (if pulses = 0 then replicate (nat steps) 0
                                  else if pulses = steps then replicate (nat steps) 1
                                  else concat (init_groups steps pulses))"
    by blast
  from mset_eq_length[OF ms] nonneg have "int (length pattern) = steps"
    by (simp add: concat_init_groups split: if_splits)
  with ret
  show "\<exists>pattern. bjorklund steps pulses = Some (Inr pattern) \<and> int (length pattern) = steps"
    by blast
qed

text \<open>
  C2 as it was written fails: with 3 pulses on 2 steps, and with 0 steps, the function
  returns a pattern.
\<close>

theorem bjorklund_invalid_spec_counterexample:
  "bjorklund 2 3 = Some (Inr [1, 1]) \<and> bjorklund 0 0 = Some (Inr [])"
  by code_simp

text \<open>The amended C2 at \<open>steps = -1\<close> and at \<open>steps = 0\<close> with 5 pulses.\<close>

theorem bjorklund_fails_only_below_zero_witness:
  "bjorklund (- 1) 0 = Some (Inl MakeSliceLenOutOfRange)
   \<and> (\<exists>pattern. bjorklund 0 5 = Some (Inr pattern) \<and> int (length pattern) = 0)"
  using bjorklund_fails_only_below_zero[of "- 1" 0] bjorklund_fails_only_below_zero[of 0 5]
  by simp

text \<open>
  C10. For \<open>steps \<ge> 1\<close> and \<open>0 \<le> pulses \<le> steps\<close>, \<open>bjorklund\<close> terminates and returns
  a pattern. A pairing round on a non-empty list of groups either merges nothing, and
  then leaves the groups as they are (the outer loop exits), or ends with strictly fewer
  groups; it always leaves one group at least.
\<close>

theorem bjorklund_terminates:
  assumes "1 \<le> steps" "0 \<le> pulses" "pulses \<le> steps"
    and "groups \<noteq> []" and "pairing_pass groups 0 0 = (groups', cnt)"
  shows "(\<exists>pattern. bjorklund steps pulses = Some (Inr pattern))
         \<and> (cnt = 0 \<and> groups' = groups \<or> length groups' < length groups)
         \<and> 1 \<le> length groups'"
proof -
  from assms(1) have "0 \<le> steps" by simp
  from bjorklund_returns[OF this, of pulses]
  have ret: "\<exists>pattern. bjorklund steps pulses = Some (Inr pattern)" by blast
  have round: "cnt = 0 \<and> groups' = groups \<or> length groups' < length groups"
  proof (cases "cnt = 0")
    case True
    with assms(5) pairing_pass_unchanged[of groups 0 0 groups'] show ?thesis by simp
  next
    case False
    with pairing_pass_count[OF assms(5)] show ?thesis by simp
  qed
  from pairing_pass_nonempty[OF assms(4,5)] have "1 \<le> length groups'"
    by (cases groups') simp_all
  with ret round show ?thesis by blast
qed

text \<open>The first round of 5 steps and 2 pulses merges twice and leaves 3 groups.\<close>

lemma pairing_pass_5_2:
  "pairing_pass [[1], [1], [0], [0], [0]] 0 0 = ([[1, 0], [1, 0], [0]], 2)"
  by code_simp

text \<open>The statement of C10 at 5 steps and 2 pulses, with that first round.\<close>

theorem bjorklund_terminates_witness:
  "(1::int) \<le> 5 \<and> (0::int) \<le> 2 \<and> (2::int) \<le> 5 \<and> [[1], [1], [0], [0], [0::int]] \<noteq> []
   \<and> pairing_pass [[1], [1], [0], [0], [0]] 0 0 = ([[1, 0], [1, 0], [0]], 2)
   \<and> (\<exists>pattern. bjorklund 5 2 = Some (Inr pattern))
   \<and> length [[1, 0], [1, 0], [0::int]] < length [[1], [1], [0], [0], [0::int]]
   \<and> 1 \<le> length [[1, 0], [1, 0], [0::int]]"
  using bjorklund_terminates[of 5 2 "[[1], [1], [0], [0], [0]]" "[[1, 0], [1, 0], [0]]" 2]
    pairing_pass_5_2
  by simp

section \<open>Arithmetic that does not wrap around\<close>

text \<open>Inside the range a result is left as it is.\<close>

lemma wrap64_id: "- (2 ^ 63) \<le> x \<Longrightarrow> x < 2 ^ 63 \<Longrightarrow> wrap64 x = x"
  by (simp add: wrap64_def)

text \<open>
  Wrapping a factor first changes nothing: \<open>a * b * c\<close> in Go is the product of the
  three numbers, wrapped once.
\<close>

lemma wrap_mod: "((x + m) mod n - m) mod n = x mod (n::int)"
  by (simp add: mod_diff_left_eq)

lemma wrap_cong: "x mod n = y mod n \<Longrightarrow> (x + m) mod n - m = (y + m) mod n - (m::int)"
  by (metis mod_add_left_eq)

lemma wrap64_mult_left: "wrap64 (wrap64 a * b) = wrap64 (a * b)"
proof -
  have "wrap64 a mod 2 ^ 64 = a mod 2 ^ 64"
    unfolding wrap64_def by (rule wrap_mod)
  then have "(wrap64 a * b) mod 2 ^ 64 = (a * b) mod 2 ^ 64"
    by (metis mod_mult_left_eq)
  then show ?thesis unfolding wrap64_def[of "wrap64 a * b"] wrap64_def[of "a * b"]
    by (rule wrap_cong)
qed

lemma go_mul3: "go_mul (go_mul a b) c = wrap64 (a * b * c)"
  by (simp add: go_mul_def wrap64_mult_left)

lemma go_mul3_id: "0 \<le> a * b * c \<Longrightarrow> a * b * c < 2 ^ 63 \<Longrightarrow> go_mul (go_mul a b) c = a * b * c"
  by (simp add: go_mul3 wrap64_id)

text \<open>On non-negative numbers the truncating division is \<open>div\<close>.\<close>

lemma go_div_nonneg: "0 \<le> a \<Longrightarrow> 0 < b \<Longrightarrow> go_div a b = a div b"
  by (simp add: go_div_def)

lemma beatMs_nonneg: "1 \<le> bpm \<Longrightarrow> go_div 60000 bpm = 60000 div bpm \<and> 0 \<le> 60000 div bpm"
  by (simp add: go_div_nonneg pos_imp_zdiv_nonneg_iff)


lemma hit_start_div:
  assumes "0 \<le> sampleRate" "0 \<le> beatMs" "i < m" "int m * sampleRate * beatMs < 2 ^ 63"
  shows "hit_start i sampleRate beatMs = int i * sampleRate * beatMs div 1000"
    and "0 \<le> hit_start i sampleRate beatMs"
proof -
  from assms(1,2) have sb: "0 \<le> sampleRate * beatMs" by simp
  from assms(3) have "int i \<le> int m" by simp
  then have "int i * (sampleRate * beatMs) \<le> int m * (sampleRate * beatMs)"
    using sb by (rule mult_right_mono)
  with assms(4) have hi: "int i * sampleRate * beatMs < 2 ^ 63" by (simp add: mult.assoc)
  from sb have lo: "0 \<le> int i * sampleRate * beatMs" by (simp add: mult.assoc)
  from go_mul3_id[OF lo hi]
  show eq: "hit_start i sampleRate beatMs = int i * sampleRate * beatMs div 1000"
    by (simp add: hit_start_def go_div_nonneg lo)
  from lo show "0 \<le> hit_start i sampleRate beatMs"
    by (simp add: eq pos_imp_zdiv_nonneg_iff)
qed

lemma totalSamples_div:
  assumes "0 \<le> sampleRate * steps * beatMs" "sampleRate * steps * beatMs < 2 ^ 63"
  shows "totalSamples sampleRate steps beatMs = sampleRate * steps * beatMs div 1000"
  using go_mul3_id[OF assms] assms(1) by (simp add: totalSamples_def go_div_nonneg)

section \<open>The mixing loops\<close>

text \<open>
  The inner loop from \<open>j\<close> on, for \<open>start \<ge> 0\<close>: it passes both index checks at every
  iteration, keeps the length of \<open>out\<close>, and adds \<open>drum[n - start]\<close> to every sample
  \<open>n\<close> of the buffer with \<open>start + j \<le> n < start + len(drum)\<close>.
\<close>

lemma mix_burst_adds:
  assumes "0 \<le> start"
  shows "\<exists>out'. mix_burst drum start j out = Inr out' \<and> length out' = length out \<and>
           (\<forall>n<length out. out' ! n = out ! n +
              (if start + int j \<le> int n \<and> int n < start + int (length drum)
               then drum ! nat (int n - start) else 0))"
  using assms
proof (induction drum start j out rule: mix_burst.induct)
  case (1 drum start j out)
  show ?case
  proof (cases "j < length drum \<and> start + int j < int (length out)")
    case False
    then have "mix_burst drum start j out = Inr out"
      by (subst mix_burst.simps) (simp only: if_False)
    moreover from False
    have "\<forall>n<length out. \<not> (start + int j \<le> int n \<and> int n < start + int (length drum))"
      by auto
    ultimately show ?thesis by auto
  next
    case True
    let ?p = "nat (start + int j)"
    let ?out = "out[?p := out ! ?p + drum ! j]"
    from True "1.prems" have ok: "in_range (start + int j) out \<and> in_range (int j) drum"
      by (simp add: in_range_def)
    from True ok have step: "mix_burst drum start j out = mix_burst drum start (Suc j) ?out"
      by (subst mix_burst.simps) simp
    from "1.IH"[OF True ok "1.prems"] obtain out' where
      run: "mix_burst drum start (Suc j) ?out = Inr out'" and len: "length out' = length ?out"
      and nth: "\<forall>n<length ?out. out' ! n = ?out ! n +
              (if start + int (Suc j) \<le> int n \<and> int n < start + int (length drum)
               then drum ! nat (int n - start) else 0)"
      by blast
    have "out' ! n = out ! n +
              (if start + int j \<le> int n \<and> int n < start + int (length drum)
               then drum ! nat (int n - start) else 0)" if n: "n < length out" for n
    proof -
      from nth n have inst: "out' ! n = ?out ! n +
              (if start + int (Suc j) \<le> int n \<and> int n < start + int (length drum)
               then drum ! nat (int n - start) else 0)" by simp
      show ?thesis
      proof (cases "n = ?p")
        case here: True
        with "1.prems" have pos: "int n = start + int j" by simp
        then have "nat (int n - start) = j" by simp
        with inst n here True pos show ?thesis by simp
      next
        case other: False
        with "1.prems" have "int n \<noteq> start + int j" by auto
        with inst n other show ?thesis by auto
      qed
    qed
    with step run len show ?thesis by simp
  qed
qed


text \<open>
  The loop over the pattern, from index \<open>i\<close> on, when the start of every remaining hit
  is not negative: it never panics, keeps the length of \<open>out\<close>, and adds to sample
  \<open>n\<close>, for each remaining step \<open>k\<close> that is a hit, the sample of the burst placed at
  \<open>hit_start (i + k)\<close>.
\<close>

lemma place_hits_sum:
  assumes "\<forall>k<length pattern. pattern ! k = 1 \<longrightarrow> 0 \<le> hit_start (i + k) sampleRate beatMs"
  shows "\<exists>out'. place_hits sampleRate beatMs drum pattern i out = Inr out'
           \<and> length out' = length out \<and>
           (\<forall>n<length out. out' ! n = out ! n +
              (\<Sum>k\<leftarrow>[0..<length pattern].
                 if pattern ! k = 1 \<and> hit_start (i + k) sampleRate beatMs \<le> int n
                    \<and> int n < hit_start (i + k) sampleRate beatMs + int (length drum)
                 then drum ! nat (int n - hit_start (i + k) sampleRate beatMs) else 0))"
  using assms
proof (induction pattern arbitrary: i out)
  case Nil
  show ?case by simp
next
  case (Cons v rest)
  let ?part = "\<lambda>pat i k n. if pat ! k = 1 \<and> hit_start (i + k) sampleRate beatMs \<le> int n
                    \<and> int n < hit_start (i + k) sampleRate beatMs + int (length drum)
                 then drum ! nat (int n - hit_start (i + k) sampleRate beatMs) else (0::int)"
  have split: "(\<Sum>k\<leftarrow>[0..<length (v # rest)]. ?part (v # rest) i k n)
        = ?part (v # rest) i 0 n + (\<Sum>k\<leftarrow>[0..<length rest]. ?part rest (Suc i) k n)" for n
  proof -
    have "[0..<length (v # rest)] = 0 # map Suc [0..<length rest]"
      by (simp add: upt_conv_Cons map_Suc_upt del: upt_Suc)
    then show ?thesis by (simp add: o_def cong: if_cong del: upt_Suc)
  qed
  have later: "\<forall>k<length rest. rest ! k = 1 \<longrightarrow> 0 \<le> hit_start (Suc i + k) sampleRate beatMs"
  proof (intro allI impI)
    fix k assume "k < length rest" "rest ! k = 1"
    with Cons.prems[rule_format, of "Suc k"] show "0 \<le> hit_start (Suc i + k) sampleRate beatMs"
      by simp
  qed
  show ?case
  proof (cases "v = 1")
    case False
    from Cons.IH[OF later, of out] obtain out' where
      run: "place_hits sampleRate beatMs drum rest (Suc i) out = Inr out'"
      and len: "length out' = length out"
      and nth: "\<forall>n<length out. out' ! n = out ! n
                  + (\<Sum>k\<leftarrow>[0..<length rest]. ?part rest (Suc i) k n)"
      by blast
    from False have "?part (v # rest) i 0 n = 0" for n by simp
    with nth have "\<forall>n<length out. out' ! n = out ! n
                  + (\<Sum>k\<leftarrow>[0..<length (v # rest)]. ?part (v # rest) i k n)"
      by (simp only: split) simp
    with False run len show ?thesis by simp
  next
    case True
    with Cons.prems[rule_format, of 0] have "0 \<le> hit_start i sampleRate beatMs" by simp
    from mix_burst_adds[OF this, of drum 0 out] obtain out1 where
      mix: "mix_burst drum (hit_start i sampleRate beatMs) 0 out = Inr out1"
      and len1: "length out1 = length out"
      and nth1: "\<forall>n<length out. out1 ! n = out ! n +
              (if hit_start i sampleRate beatMs + int 0 \<le> int n
                  \<and> int n < hit_start i sampleRate beatMs + int (length drum)
               then drum ! nat (int n - hit_start i sampleRate beatMs) else 0)"
      by blast
    from Cons.IH[OF later, of out1] obtain out' where
      run: "place_hits sampleRate beatMs drum rest (Suc i) out1 = Inr out'"
      and len: "length out' = length out1"
      and nth: "\<forall>n<length out1. out' ! n = out1 ! n
                  + (\<Sum>k\<leftarrow>[0..<length rest]. ?part rest (Suc i) k n)"
      by blast
    have "out' ! n = out ! n + (\<Sum>k\<leftarrow>[0..<length (v # rest)]. ?part (v # rest) i k n)"
      if n: "n < length out" for n
    proof -
      from True have "?part (v # rest) i 0 n =
              (if hit_start i sampleRate beatMs + int 0 \<le> int n
                  \<and> int n < hit_start i sampleRate beatMs + int (length drum)
               then drum ! nat (int n - hit_start i sampleRate beatMs) else 0)" by simp
      with nth1 n have "out1 ! n = out ! n + ?part (v # rest) i 0 n" by simp
      moreover from nth n len1
      have "out' ! n = out1 ! n + (\<Sum>k\<leftarrow>[0..<length rest]. ?part rest (Suc i) k n)" by simp
      ultimately show ?thesis by (simp only: split)
    qed
    with True mix run len len1 show ?thesis by simp
  qed
qed

section \<open>Where the hits of a pattern are\<close>




section \<open>Properties of render\<close>

text \<open>
  When the buffer length computed is not negative and the start computed for every hit
  is not negative, the rendering returns a buffer of that length, and each of its
  samples is the sum, over the steps that are hits, of the sample of the burst placed
  at the start of that step.
\<close>

lemma render_samples:
  assumes "bpm \<noteq> 0" and "0 \<le> totalSamples sampleRate steps (go_div 60000 bpm)"
    and "\<forall>i<length pattern. pattern ! i = 1 \<longrightarrow> 0 \<le> hit_start i sampleRate (go_div 60000 bpm)"
  shows "\<exists>out. render pattern drum sampleRate bpm steps = Inr out
           \<and> int (length out) = totalSamples sampleRate steps (go_div 60000 bpm)
           \<and> (\<forall>n<length out. out ! n =
                (\<Sum>i\<leftarrow>[0..<length pattern].
                   if pattern ! i = 1 \<and> hit_start i sampleRate (go_div 60000 bpm) \<le> int n
                      \<and> int n < hit_start i sampleRate (go_div 60000 bpm) + int (length drum)
                   then drum ! nat (int n - hit_start i sampleRate (go_div 60000 bpm))
                   else 0))"
proof -
  let ?beatMs = "go_div 60000 bpm"
  let ?total = "totalSamples sampleRate steps ?beatMs"
  from assms(3) have starts: "\<forall>k<length pattern. pattern ! k = 1 \<longrightarrow> 0 \<le> hit_start (0 + k) sampleRate ?beatMs"
    by simp
  from place_hits_sum[OF starts, of drum "replicate (nat ?total) 0"]
  obtain out where
    run: "place_hits sampleRate ?beatMs drum pattern 0 (replicate (nat ?total) 0) = Inr out"
    and len: "length out = nat ?total"
    and nth: "\<forall>n<nat ?total. out ! n = replicate (nat ?total) 0 ! n +
              (\<Sum>k\<leftarrow>[0..<length pattern].
                 if pattern ! k = 1 \<and> hit_start (0 + k) sampleRate ?beatMs \<le> int n
                    \<and> int n < hit_start (0 + k) sampleRate ?beatMs + int (length drum)
                 then drum ! nat (int n - hit_start (0 + k) sampleRate ?beatMs) else 0)"
    by auto
  from assms(1,2) run
  have ret: "render pattern drum sampleRate bpm steps = Inr out"
    by (simp add: render_def make_ints_def)
  from len assms(2) have len': "int (length out) = ?total" by simp
  from nth len have "\<forall>n<length out. out ! n =
                (\<Sum>i\<leftarrow>[0..<length pattern].
                   if pattern ! i = 1 \<and> hit_start i sampleRate ?beatMs \<le> int n
                      \<and> int n < hit_start i sampleRate ?beatMs + int (length drum)
                   then drum ! nat (int n - hit_start i sampleRate ?beatMs) else 0)"
    by (simp cong: if_cong)
  with ret len' show ?thesis by blast
qed

text \<open>
  The same in plain arithmetic, when neither the product for the buffer length nor the
  product for an index of the pattern reaches \<open>2 ^ 63\<close>.
\<close>

lemma render_samples_bounded:
  assumes "1 \<le> sampleRate" "1 \<le> bpm" "0 \<le> steps"
    and "sampleRate * steps * (60000 div bpm) < 2 ^ 63"
    and "int (length pattern) * sampleRate * (60000 div bpm) < 2 ^ 63"
  shows "\<exists>out. render pattern drum sampleRate bpm steps = Inr out
           \<and> int (length out) = sampleRate * steps * (60000 div bpm) div 1000
           \<and> (\<forall>n<length out. out ! n =
                (\<Sum>i\<leftarrow>[0..<length pattern].
                   if pattern ! i = 1 \<and> int i * sampleRate * (60000 div bpm) div 1000 \<le> int n
                      \<and> int n < int i * sampleRate * (60000 div bpm) div 1000
                                 + int (length drum)
                   then drum ! nat (int n - int i * sampleRate * (60000 div bpm) div 1000)
                   else 0))"
proof -
  let ?beatMs = "60000 div bpm"
  let ?total = "sampleRate * steps * ?beatMs div 1000"
  from assms(2) have beat: "go_div 60000 bpm = ?beatMs" and beat0: "0 \<le> ?beatMs"
    using beatMs_nonneg by simp_all
  from assms(2) have bpm0: "bpm \<noteq> 0" by simp
  from assms(1) have rate0: "0 \<le> sampleRate" by simp
  from assms(1,3) beat0 have prod0: "0 \<le> sampleRate * steps * ?beatMs" by simp
  from totalSamples_div[OF prod0 assms(4)]
  have total: "totalSamples sampleRate steps ?beatMs = ?total" .
  from prod0 have total0: "0 \<le> ?total" by (simp add: pos_imp_zdiv_nonneg_iff)
  have start: "hit_start i sampleRate ?beatMs = int i * sampleRate * ?beatMs div 1000"
    and start0: "0 \<le> hit_start i sampleRate ?beatMs" if "i < length pattern" for i
    using hit_start_div[OF rate0 beat0 that assms(5)] by simp_all
  from total total0 have alloc: "0 \<le> totalSamples sampleRate steps ?beatMs" by simp
  from start0 have starts:
    "\<forall>i<length pattern. pattern ! i = 1 \<longrightarrow> 0 \<le> hit_start i sampleRate ?beatMs" by simp
  from render_samples[of bpm sampleRate steps pattern drum, unfolded beat, OF bpm0 alloc starts]
    total
  obtain out where ret: "render pattern drum sampleRate bpm steps = Inr out"
    and len: "int (length out) = ?total"
    and nth: "\<forall>n<length out. out ! n =
                (\<Sum>i\<leftarrow>[0..<length pattern].
                   if pattern ! i = 1 \<and> hit_start i sampleRate ?beatMs \<le> int n
                      \<and> int n < hit_start i sampleRate ?beatMs + int (length drum)
                   then drum ! nat (int n - hit_start i sampleRate ?beatMs)
                   else 0)"
    by auto
  have "(\<Sum>i\<leftarrow>[0..<length pattern].
                   if pattern ! i = 1 \<and> hit_start i sampleRate ?beatMs \<le> int n
                      \<and> int n < hit_start i sampleRate ?beatMs + int (length drum)
                   then drum ! nat (int n - hit_start i sampleRate ?beatMs)
                   else 0)
        = (\<Sum>i\<leftarrow>[0..<length pattern].
                   if pattern ! i = 1 \<and> int i * sampleRate * ?beatMs div 1000 \<le> int n
                      \<and> int n < int i * sampleRate * ?beatMs div 1000 + int (length drum)
                   then drum ! nat (int n - int i * sampleRate * ?beatMs div 1000)
                   else 0)" for n
    by (rule arg_cong[where f = sum_list], rule map_cong) (simp_all add: start)
  with nth have "\<forall>n<length out. out ! n =
                (\<Sum>i\<leftarrow>[0..<length pattern].
                   if pattern ! i = 1 \<and> int i * sampleRate * ?beatMs div 1000 \<le> int n
                      \<and> int n < int i * sampleRate * ?beatMs div 1000 + int (length drum)
                   then drum ! nat (int n - int i * sampleRate * ?beatMs div 1000)
                   else 0)"
    by simp
  with ret len show ?thesis by blast
qed


text \<open>
  The index checks of the model are not idle: with a negative sample rate the second
  step starts at \<open>-60\<close>, the guard \<open>start+j < len(out)\<close> lets it through, and
  \<open>out[start+j]\<close> panics.
\<close>

lemma render_negative_rate_panics: "render [0, 1] [7] (- 1) 1 (- 1) = Inl IndexOutOfRange"
  by code_simp








text \<open>
  C5, as the code has it. For a pattern of \<open>steps\<close> entries, \<open>sampleRate \<ge> 1\<close>,
  \<open>bpm \<ge> 1\<close> and \<open>steps \<ge> 1\<close>, with \<open>sampleRate * steps * (60000 / bpm)\<close> below
  \<open>2 ^ 63\<close>, the buffer returned has exactly
  \<open>sampleRate * steps * (60000 / bpm) / 1000\<close> samples, where \<open>60000 / bpm\<close> is truncated
  first and the division by 1000 is truncated last.
\<close>

theorem render_length:
  assumes "1 \<le> sampleRate" "1 \<le> bpm" "1 \<le> steps" "int (length pattern) = steps"
    and "sampleRate * steps * (60000 div bpm) < 2 ^ 63"
  shows "\<exists>out. render pattern drum sampleRate bpm steps = Inr out
           \<and> int (length out) = sampleRate * steps * (60000 div bpm) div 1000"
proof -
  from assms(3) have steps0: "0 \<le> steps" by simp
  from assms(4,5) have "int (length pattern) * sampleRate * (60000 div bpm) < 2 ^ 63"
    by (simp add: mult.commute[of steps sampleRate])
  from render_samples_bounded[OF assms(1,2) steps0 assms(5) this, of drum]
  show ?thesis by blast
qed

text \<open>
  C5 as it was written fails where the product wraps around. At sample rate \<open>2 ^ 62\<close>
  and 60000 beats per minute \<open>beatMs\<close> is 1. With 2 steps the product \<open>2 ^ 63\<close> wraps
  to \<open>- 2 ^ 63\<close> and \<open>make\<close> panics, where the formula gives 9223372036854775
  samples. With 4 steps the product \<open>2 ^ 64\<close> wraps to 0 and the buffer is empty, where
  the formula gives 18446744073709551 samples.
\<close>

theorem render_length_counterexample:
  "bjorklund 2 1 = Some (Inr [1, 0])
   \<and> render [1, 0] [7] (2 ^ 62) 60000 2 = Inl MakeSliceLenOutOfRange
   \<and> (2 ^ 62 * 2 * (60000 div 60000) div 1000 :: int) = 9223372036854775
   \<and> bjorklund 4 1 = Some (Inr [1, 0, 0, 0])
   \<and> render [1, 0, 0, 0] [7] (2 ^ 62) 60000 4 = Inr []
   \<and> (2 ^ 62 * 4 * (60000 div 60000) div 1000 :: int) = 18446744073709551"
  by code_simp

text \<open>
  The amended C5 at the values of \<open>main\<close>: 44100 Hz, 120 beats per minute and 16 steps
  give 352800 samples.
\<close>

theorem render_length_witness:
  "(1::int) \<le> 44100 \<and> (1::int) \<le> 120 \<and> (1::int) \<le> 16
   \<and> int (length [1, 0, 1, 0, 1, 0, 1, 0, 1, 0, 1, 0, 0, 0, 0, 0::int]) = 16
   \<and> (44100::int) * 16 * (60000 div 120) < 2 ^ 63
   \<and> (\<exists>out. render [1, 0, 1, 0, 1, 0, 1, 0, 1, 0, 1, 0, 0, 0, 0, 0] [7] 44100 120 16 = Inr out
         \<and> int (length out) = 352800)"
  using render_length[of 44100 120 16 "[1, 0, 1, 0, 1, 0, 1, 0, 1, 0, 1, 0, 0, 0, 0, 0]" "[7]"]
  by simp





text \<open>
  C9, as the code has it. For every pattern, every burst and every \<open>steps\<close>, and for
  \<open>sampleRate \<ge> 1\<close> and \<open>bpm \<ge> 1\<close> with \<open>len(pattern) * sampleRate * beatMs\<close> below
  \<open>2 ^ 63\<close>, each \<open>out[start+j]\<close> and each \<open>drum[j]\<close> of the mixing loop is within
  bounds: the rendering never ends in an index panic, also when a burst would run past
  the end of the buffer.
\<close>

theorem render_no_index_panic:
  assumes "1 \<le> sampleRate" "1 \<le> bpm"
    and "int (length pattern) * sampleRate * (60000 div bpm) < 2 ^ 63"
  shows "render pattern drum sampleRate bpm steps \<noteq> Inl IndexOutOfRange"
proof -
  from assms(2) have beat: "go_div 60000 bpm = 60000 div bpm" and beat0: "0 \<le> 60000 div bpm"
    using beatMs_nonneg by simp_all
  from assms(1) have rate0: "0 \<le> sampleRate" by simp
  have starts: "\<forall>k<length pattern. pattern ! k = 1
                  \<longrightarrow> 0 \<le> hit_start (0 + k) sampleRate (go_div 60000 bpm)"
    using hit_start_div(2)[OF rate0 beat0 _ assms(3)] beat by simp
  show ?thesis
  proof (cases "make_ints (totalSamples sampleRate steps (go_div 60000 bpm))")
    case (Inl e)
    then have "e = MakeSliceLenOutOfRange" by (simp add: make_ints_def split: if_splits)
    with Inl assms(2) show ?thesis by (simp add: render_def)
  next
    case (Inr out)
    from place_hits_sum[OF starts, of drum out]
    obtain out' where "place_hits sampleRate (go_div 60000 bpm) drum pattern 0 out = Inr out'"
      by blast
    with Inr assms(2) show ?thesis by (simp add: render_def)
  qed
qed

text \<open>
  C9 as it was written fails where the product wraps around. At sample rate \<open>2 ^ 62\<close>
  and 60000 beats per minute, the pattern of 4 steps and 2 pulses has a hit at index 2:
  \<open>2 * 2 ^ 62\<close> wraps to \<open>- 2 ^ 63\<close>, the start is -9223372036854775, the guard
  \<open>start+j < len(out)\<close> holds, and \<open>out[start+j]\<close> panics.
\<close>

theorem render_no_index_panic_counterexample:
  "bjorklund 4 2 = Some (Inr [1, 0, 1, 0])
   \<and> render [1, 0, 1, 0] [7] (2 ^ 62) 60000 4 = Inl IndexOutOfRange
   \<and> hit_start 2 (2 ^ 62) (go_div 60000 60000) = - 9223372036854775"
  by code_simp

text \<open>
  The amended C9 where bursts overlap and the last one runs past the end: three hits
  of a burst of 3 samples in a buffer of 4.
\<close>

theorem render_no_index_panic_witness:
  "(1::int) \<le> 3 \<and> (1::int) \<le> 120
   \<and> int (length [1, 1, 1::int]) * 3 * (60000 div 120) < 2 ^ 63
   \<and> render [1, 1, 1] [7, 8, 9] 3 120 3 \<noteq> Inl IndexOutOfRange"
  using render_no_index_panic[of 3 120 "[1, 1, 1]" "[7, 8, 9]" 3] by simp

end
